theory Spec2Isabelle
  imports Main "HOL-Library.Sublist"
begin

section \<open>Values, callables and caller-supplied code\<close>

text \<open>
  \<open>withDefer\<close> (src/src/index.ts) is a higher-order routine: its behaviour is its
  interaction with the functions the caller hands to it.  Those functions are not part
  of the library, so they are inputs of the model.  A function object is a closure
  \<open>Fn f caps\<close>: a code pointer \<open>f\<close> and the values it captured; an environment maps
  the code pointer, the captured values and the call's arguments to the body that runs.
  Function objects are references, so a closure may register itself again.
\<close>

type_synonym fid = nat

text \<open>The identity of one invocation's private \<open>deferred\<close> array (and of its handle).\<close>

type_synonym hid = nat

datatype val =
    Undefined
  | Null
  | Boolean bool
  | Num int
  | Str string
  | Object                        \<comment> \<open>a plain, non-callable object\<close>
  | Promise                       \<comment> \<open>a Promise object, e.g. the result of calling an async function\<close>
  | Fn fid "val list"             \<comment> \<open>a function object: code pointer and captured values\<close>
  | PromiseFn fid "val list"      \<comment> \<open>a callable with \<open>Promise.prototype\<close> on its prototype chain\<close>
  | Handle hid                    \<comment> \<open>the \<open>defer\<close> closure of the invocation \<open>hid\<close>\<close>
  | Error string
  | TypeError string
  | AggregateError "val list" string

text \<open>How a call settles: \<open>await f()\<close> either yields a value or throws one.\<close>

datatype outcome = Returned val | Thrown val

text \<open>
  The body of a caller-supplied function, as the library sees it: it may write to a log
  of its own (\<open>Emit\<close>, for side effects such as \<open>order.push(1)\<close>), call a registration
  handle it holds (\<open>CallDefer\<close>) and go on with what the handle did (so it can catch the
  handle's exception or let it escape), run and await a nested \<open>withDefer\<close>
  (\<open>AwaitWithDefer\<close>), and finally return or throw.  A synchronous function and an
  asynchronous one whose promise is awaited are the same here: \<open>Ret v\<close> is the value the
  awaited call yields, \<open>Throw e\<close> the value it throws or rejects with.
\<close>

datatype comp =
    Ret val
  | Throw val
  | Emit val comp
  | CallDefer hid val "outcome \<Rightarrow> comp"
  | AwaitWithDefer val "outcome \<Rightarrow> comp"

type_synonym env = "fid \<Rightarrow> val list \<Rightarrow> val list \<Rightarrow> comp"

text \<open>
  The log records what caller code emitted and, as ghost information, every cleanup
  action an invocation's teardown loop has run, with the way it settled.
\<close>

datatype event = Logged val | Ran hid val outcome

record state =
  deferred :: "hid \<Rightarrow> val list"   \<comment> \<open>the \<open>deferred\<close> array of each invocation\<close>
  next_id :: hid                    \<comment> \<open>the next invocation to be created\<close>
  trace :: "event list"

definition init :: state where
  "init = \<lparr>deferred = (\<lambda>_. []), next_id = 0, trace = []\<rparr>"

text \<open>JavaScript's \<open>typeof v\<close> and \<open>v instanceof Promise\<close>.\<close>

fun typeof :: "val \<Rightarrow> string" where
  "typeof Undefined = ''undefined''"
| "typeof Null = ''object''"
| "typeof (Boolean b) = ''boolean''"
| "typeof (Num n) = ''number''"
| "typeof (Str s) = ''string''"
| "typeof Object = ''object''"
| "typeof Promise = ''object''"
| "typeof (Fn f caps) = ''function''"
| "typeof (PromiseFn f caps) = ''function''"
| "typeof (Handle h) = ''function''"
| "typeof (Error m) = ''object''"
| "typeof (TypeError m) = ''object''"
| "typeof (AggregateError es m) = ''object''"

fun instanceof_Promise :: "val \<Rightarrow> bool" where
  "instanceof_Promise Promise = True"
| "instanceof_Promise (PromiseFn f caps) = True"
| "instanceof_Promise v = False"

section \<open>The registration handle\<close>

text \<open>
  index.ts, lines 44-57: the closure \<open>defer\<close> of the invocation \<open>h\<close>.  It throws a
  \<open>TypeError\<close> to its caller or pushes the callback onto the invocation's array.
\<close>

definition "defer" :: "hid \<Rightarrow> val \<Rightarrow> state \<Rightarrow> outcome \<times> state" where
  "defer h callback s =
     (if typeof callback \<noteq> ''function'' then
        (Thrown (TypeError ''defer() expects a function''), s)
      else if instanceof_Promise callback then
        (Thrown (TypeError (''defer() expects a function, not a Promise. '' @
                            ''Use defer(() => yourAsyncFunction()) instead'')), s)
      else
        (Returned Undefined, s\<lparr>deferred := (deferred s)(h := deferred s h @ [callback])\<rparr>))"

text \<open>
  What runs when a value is called with arguments.  Calling the handle runs \<open>defer\<close> on
  the first argument (\<open>undefined\<close> when there is none) and passes on what it did.
\<close>

fun body :: "env \<Rightarrow> val \<Rightarrow> val list \<Rightarrow> comp" where
  "body env (Fn f caps) args = env f caps args"
| "body env (PromiseFn f caps) args = env f caps args"
| "body env (Handle h) args =
     CallDefer h (case args of [] \<Rightarrow> Undefined | a # _ \<Rightarrow> a)
       (\<lambda>r. case r of Returned v \<Rightarrow> Ret v | Thrown e \<Rightarrow> Throw e)"
| "body env v args = Throw (TypeError ''not a function'')"

section \<open>The coordinator\<close>

text \<open>
  index.ts, lines 35-84.  Caller code may run forever (a cleanup action can register
  itself again), so the three mutually recursive functions take fuel and return
  \<open>None\<close> when it runs out.
  \<^item> \<open>exec\<close> runs caller code;
  \<^item> \<open>withDefer\<close> is the exported function: the check of \<open>fn\<close> (lines 38-40), a fresh
    \<open>deferred\<close> array (line 42), \<open>errors\<close> and \<open>result\<close> (lines 59-60), the
    \<open>try/catch\<close> around \<open>await fn(defer)\<close> (lines 62-66), the teardown loop (\<open>finally\<close>,
    lines 67-77) and the final test of \<open>errors.length\<close> (lines 79-83);
  \<^item> \<open>drain\<close> is the \<open>while\<close> loop of lines 69-76, with \<open>errors\<close> as accumulator.
\<close>

fun exec :: "nat \<Rightarrow> env \<Rightarrow> comp \<Rightarrow> state \<Rightarrow> (outcome \<times> state) option"
  and withDefer :: "nat \<Rightarrow> env \<Rightarrow> val \<Rightarrow> state \<Rightarrow> (outcome \<times> state) option"
  and drain :: "nat \<Rightarrow> env \<Rightarrow> hid \<Rightarrow> val list \<Rightarrow> state \<Rightarrow> (val list \<times> state) option"
where
  "exec 0 env c s = None"
| "exec (Suc n) env (Ret v) s = Some (Returned v, s)"
| "exec (Suc n) env (Throw e) s = Some (Thrown e, s)"
| "exec (Suc n) env (Emit v k) s = exec n env k (s\<lparr>trace := trace s @ [Logged v]\<rparr>)"
| "exec (Suc n) env (CallDefer h cb k) s =
     (case defer h cb s of (r, s') \<Rightarrow> exec n env (k r) s')"
| "exec (Suc n) env (AwaitWithDefer fn k) s =
     (case withDefer n env fn s of
        None \<Rightarrow> None
      | Some (r, s') \<Rightarrow> exec n env (k r) s')"
| "withDefer 0 env fn s = None"
| "withDefer (Suc n) env fn s =
     (if typeof fn \<noteq> ''function'' then
        Some (Thrown (TypeError ''withDefer() expects a function''), s)
      else
        let h = next_id s;
            s1 = s\<lparr>deferred := (deferred s)(h := []), next_id := Suc h\<rparr>
        in case exec n env (body env fn [Handle h]) s1 of
             None \<Rightarrow> None
           | Some (r, s2) \<Rightarrow>
               (case drain n env h (case r of Returned v \<Rightarrow> [] | Thrown e \<Rightarrow> [e]) s2 of
                  None \<Rightarrow> None
                | Some (errors, s3) \<Rightarrow>
                    Some (if length errors > 0
                          then Thrown (AggregateError errors ''Errors in defer execution'')
                          else Returned (case r of Returned v \<Rightarrow> v | Thrown e \<Rightarrow> Null),
                          s3)))"
| "drain 0 env h errors s = None"
| "drain (Suc n) env h errors s =
     (if length (deferred s h) > 0 then
        let callback = last (deferred s h);
            s1 = s\<lparr>deferred := (deferred s)(h := butlast (deferred s h))\<rparr>
        in case exec n env (body env callback []) s1 of
             None \<Rightarrow> None
           | Some (r, s2) \<Rightarrow>
               drain n env h (case r of Returned v \<Rightarrow> errors | Thrown e \<Rightarrow> errors @ [e])
                 (s2\<lparr>trace := trace s2 @ [Ran h callback r]\<rparr>)
      else Some (errors, s))"

section \<open>Reading the log\<close>

text \<open>
  \<open>cleanups h t\<close>: the cleanup actions that the teardown loop of invocation \<open>h\<close> ran within the
  log segment \<open>t\<close>, in the order it ran them, each with the way it settled;
  \<open>thrown\<close>: the values thrown by those that failed, in the same order.
\<close>

fun cleanups :: "hid \<Rightarrow> event list \<Rightarrow> (val \<times> outcome) list" where
  "cleanups h [] = []"
| "cleanups h (Logged v # t) = cleanups h t"
| "cleanups h (Ran h' cb r # t) = (if h' = h then (cb, r) # cleanups h t else cleanups h t)"

fun thrown :: "(val \<times> outcome) list \<Rightarrow> val list" where
  "thrown [] = []"
| "thrown ((cb, Returned v) # rs) = thrown rs"
| "thrown ((cb, Thrown e) # rs) = e # thrown rs"


text \<open>
  \<open>frame P s s'\<close>: from \<open>s\<close> to \<open>s'\<close> the log was only extended, and for every invocation
  \<open>h\<close> with \<open>P h\<close> no cleanup action of \<open>h\<close> was run and nothing was removed from the
  \<open>deferred\<close> array of \<open>h\<close> (it may have grown at its end).
\<close>

definition frame :: "(hid \<Rightarrow> bool) \<Rightarrow> state \<Rightarrow> state \<Rightarrow> bool" where
  "frame P s s' \<longleftrightarrow>
     next_id s \<le> next_id s' \<and>
     (\<exists>t. trace s' = trace s @ t \<and> (\<forall>h. P h \<longrightarrow> cleanups h t = [])) \<and>
     (\<forall>h. P h \<longrightarrow> prefix (deferred s h) (deferred s' h))"



text \<open>
  The state in which \<open>withDefer\<close>, entered in \<open>s\<close>, calls \<open>fn\<close>: the invocation
  \<open>next_id s\<close> has its empty \<open>deferred\<close> array (line 42).
\<close>

definition started :: "state \<Rightarrow> state" where
  "started s = s\<lparr>deferred := (deferred s)(next_id s := []), next_id := Suc (next_id s)\<rparr>"

section \<open>Example programs\<close>

text \<open>
  Caller code used to exercise the theorems, after the repository's tests
  (index.test.ts).  Code pointers:
  \<^item> 0: \<open>() => log.push(v)\<close>, a cleanup action that logs the value it captured;
  \<^item> 1: \<open>() => { throw v }\<close>, a cleanup action that throws the value it captured;
  \<^item> 2: \<open>(defer) => { defer(push 1); defer(push 2); defer(push 3); return "success" }\<close>;
  \<^item> 3: \<open>(defer) => { defer(throw "e1"); defer(throw "e2"); throw "main" }\<close>;
  \<^item> 4: \<open>(defer) => { defer("not a function") }\<close>, which does not catch;
  \<^item> 5: \<open>(defer) => { defer(() => defer(push "late")); return "done" }\<close>, whose cleanup
    action (code pointer 6) calls the handle it captured;
  \<^item> 7: the outer and 8: the inner function of the nesting test;
  \<^item> 9: \<open>(defer) => { defer(push 1); throw 7 }\<close>;
  \<^item> 10: \<open>const again = () => defer(again)\<close>, a cleanup action that registers itself;
  \<^item> 11: \<open>(defer) => { defer(again); return "done" }\<close>;
  \<^item> 12: \<open>(defer) => { defer(again); throw "main" }\<close>;
  \<^item> 13: \<open>(defer) => { defer(again); defer(null) }\<close>, which does not catch;
  \<^item> 14: \<open>(defer) => { defer(push 1); defer("not a function") }\<close>, which does not catch.
\<close>

definition uncaught :: "comp \<Rightarrow> outcome \<Rightarrow> comp" where
  "uncaught c r = (case r of Returned v \<Rightarrow> c | Thrown e \<Rightarrow> Throw e)"

definition demo :: env where
  "demo f caps args =
     (if f = 0 then Emit (hd caps) (Ret Undefined)
      else if f = 1 then Throw (hd caps)
      else if f = 2 then
        (case hd args of
           Handle h \<Rightarrow>
             CallDefer h (Fn 0 [Num 1]) (uncaught
               (CallDefer h (Fn 0 [Num 2]) (uncaught
                 (CallDefer h (Fn 0 [Num 3]) (uncaught
                   (Ret (Str ''success'')))))))
         | _ \<Rightarrow> Ret Undefined)
      else if f = 3 then
        (case hd args of
           Handle h \<Rightarrow>
             CallDefer h (Fn 1 [Str ''e1'']) (uncaught
               (CallDefer h (Fn 1 [Str ''e2'']) (uncaught
                 (Throw (Str ''main'')))))
         | _ \<Rightarrow> Ret Undefined)
      else if f = 4 then
        (case hd args of
           Handle h \<Rightarrow> CallDefer h (Str ''not a function'') (uncaught (Ret Undefined))
         | _ \<Rightarrow> Ret Undefined)
      else if f = 5 then
        (case hd args of
           Handle h \<Rightarrow> CallDefer h (Fn 6 [Handle h]) (uncaught (Ret (Str ''done'')))
         | _ \<Rightarrow> Ret Undefined)
      else if f = 6 then
        (case hd caps of
           Handle h \<Rightarrow> CallDefer h (Fn 0 [Str ''late'']) (uncaught (Ret Undefined))
         | _ \<Rightarrow> Ret Undefined)
      else if f = 7 then
        (case hd args of
           Handle h \<Rightarrow>
             CallDefer h (Fn 0 [Str ''outer-cleanup'']) (uncaught
               (Emit (Str ''outer-start'')
                 (AwaitWithDefer (Fn 8 []) (uncaught
                   (Emit (Str ''outer-end'') (Ret Undefined))))))
         | _ \<Rightarrow> Ret Undefined)
      else if f = 8 then
        (case hd args of
           Handle h \<Rightarrow>
             CallDefer h (Fn 0 [Str ''inner-cleanup'']) (uncaught
               (Emit (Str ''inner-work'') (Ret Undefined)))
         | _ \<Rightarrow> Ret Undefined)
      else if f = 9 then
        (case hd args of
           Handle h \<Rightarrow> CallDefer h (Fn 0 [Num 1]) (uncaught (Throw (Num 7)))
         | _ \<Rightarrow> Ret Undefined)
      else if f = 10 then
        (case hd caps of
           Handle h \<Rightarrow> CallDefer h (Fn 10 [Handle h]) (uncaught (Ret Undefined))
         | _ \<Rightarrow> Ret Undefined)
      else if f = 11 then
        (case hd args of
           Handle h \<Rightarrow> CallDefer h (Fn 10 [Handle h]) (uncaught (Ret (Str ''done'')))
         | _ \<Rightarrow> Ret Undefined)
      else if f = 12 then
        (case hd args of
           Handle h \<Rightarrow> CallDefer h (Fn 10 [Handle h]) (uncaught (Throw (Str ''main'')))
         | _ \<Rightarrow> Ret Undefined)
      else if f = 13 then
        (case hd args of
           Handle h \<Rightarrow>
             CallDefer h (Fn 10 [Handle h]) (uncaught
               (CallDefer h Null (uncaught (Ret Undefined))))
         | _ \<Rightarrow> Ret Undefined)
      else if f = 14 then
        (case hd args of
           Handle h \<Rightarrow>
             CallDefer h (Fn 0 [Num 1]) (uncaught
               (CallDefer h (Str ''not a function'') (uncaught (Ret Undefined))))
         | _ \<Rightarrow> Ret Undefined)
      else Ret Undefined)"




definition after_work_5 :: state where
  "after_work_5 = \<lparr>deferred = (\<lambda>_. [])(0 := [Fn 6 [Handle 0]]), next_id = 1, trace = []\<rparr>"

definition after_late :: state where
  "after_late = \<lparr>deferred = (\<lambda>_. [])(0 := [Fn 0 [Str ''late'']]), next_id = 1, trace = []\<rparr>"

definition after_5 :: state where
  "after_5 = \<lparr>deferred = (\<lambda>_. [])(0 := []), next_id = 1,
              trace = [Ran 0 (Fn 6 [Handle 0]) (Returned Undefined), Logged (Str ''late''),
                       Ran 0 (Fn 0 [Str ''late'']) (Returned Undefined)]\<rparr>"








section \<open>More fuel changes nothing\<close>







section \<open>What running code leaves alone\<close>

lemma cleanups_append [simp]: "cleanups h (t @ u) = cleanups h t @ cleanups h u"
  by (induction h t rule: cleanups.induct) auto

lemma thrown_append [simp]: "thrown (rs @ qs) = thrown rs @ thrown qs"
  by (induction rs rule: thrown.induct) auto

lemma frame_refl: "frame P s s"
  by (simp add: frame_def)

lemma frame_trans:
  assumes "frame P s s'" and "frame Q s' s''" and "\<And>h. R h \<Longrightarrow> P h \<and> Q h"
  shows "frame R s s''"
proof -
  from assms(1) obtain t where t: "trace s' = trace s @ t" "\<forall>h. P h \<longrightarrow> cleanups h t = []"
    and p: "\<forall>h. P h \<longrightarrow> prefix (deferred s h) (deferred s' h)" and n: "next_id s \<le> next_id s'"
    by (auto simp: frame_def)
  from assms(2) obtain u where u: "trace s'' = trace s' @ u" "\<forall>h. Q h \<longrightarrow> cleanups h u = []"
    and q: "\<forall>h. Q h \<longrightarrow> prefix (deferred s' h) (deferred s'' h)" and m: "next_id s' \<le> next_id s''"
    by (auto simp: frame_def)
  have "trace s'' = trace s @ (t @ u)" using t u by simp
  moreover have "\<forall>h. R h \<longrightarrow> cleanups h (t @ u) = []" using t u assms(3) by simp
  moreover have "\<forall>h. R h \<longrightarrow> prefix (deferred s h) (deferred s'' h)"
    using p q assms(3) by (meson prefix_order.trans)
  ultimately show ?thesis using n m unfolding frame_def by (metis le_trans)
qed

lemma frame_emit: "frame P s (s\<lparr>trace := trace s @ [Logged v]\<rparr>)"
  by (simp add: frame_def)

lemma frame_ran: "frame (\<lambda>h. h \<noteq> h0) s (s\<lparr>trace := trace s @ [Ran h0 cb r]\<rparr>)"
  by (simp add: frame_def)

lemma frame_defer: "defer h cb s = (r, s') \<Longrightarrow> frame P s s'"
  by (auto simp: defer_def frame_def split: if_splits)

lemma frame_alloc:
  "frame (\<lambda>h. h < next_id s) s (s\<lparr>deferred := (deferred s)(next_id s := []), next_id := Suc (next_id s)\<rparr>)"
  by (simp add: frame_def)

lemma frame_pop: "frame (\<lambda>h. h \<noteq> h0) s (s\<lparr>deferred := (deferred s)(h0 := butlast (deferred s h0))\<rparr>)"
  by (simp add: frame_def)

lemma frame_next: "frame P s s' \<Longrightarrow> next_id s \<le> next_id s'"
  by (simp add: frame_def)

lemma frame_all:
  "(\<forall>c s r s'. exec n env c s = Some (r, s') \<longrightarrow> frame (\<lambda>h. h < next_id s) s s') \<and>
   (\<forall>fn s r s'. withDefer n env fn s = Some (r, s') \<longrightarrow> frame (\<lambda>h. h < next_id s) s s') \<and>
   (\<forall>h0 es s es' s'. drain n env h0 es s = Some (es', s') \<longrightarrow>
        frame (\<lambda>h. h < next_id s \<and> h \<noteq> h0) s s')"
proof (induction n)
  case 0
  show ?case by simp
next
  case (Suc n)
  from Suc.IH have IHe: "\<And>c s r s'. exec n env c s = Some (r, s') \<Longrightarrow> frame (\<lambda>h. h < next_id s) s s'"
    and IHw: "\<And>fn s r s'. withDefer n env fn s = Some (r, s') \<Longrightarrow> frame (\<lambda>h. h < next_id s) s s'"
    and IHd: "\<And>h0 es s es' s'. drain n env h0 es s = Some (es', s') \<Longrightarrow>
                 frame (\<lambda>h. h < next_id s \<and> h \<noteq> h0) s s'"
    by blast+
  have e: "frame (\<lambda>h. h < next_id s) s s'" if "exec (Suc n) env c s = Some (r, s')" for c s r s'
  proof (cases c)
    case (Ret v)
    with that show ?thesis by (simp add: frame_refl)
  next
    case (Throw v)
    with that show ?thesis by (simp add: frame_refl)
  next
    case (Emit v k)
    with that have "exec n env k (s\<lparr>trace := trace s @ [Logged v]\<rparr>) = Some (r, s')" by simp
    from IHe[OF this] show ?thesis
      by (rule frame_trans[OF frame_emit[of "\<lambda>h. True"]]) simp
  next
    case (CallDefer h cb k)
    with that obtain r1 s1 where 1: "defer h cb s = (r1, s1)" and 2: "exec n env (k r1) s1 = Some (r, s')"
      by (auto split: prod.splits)
    have "next_id s1 = next_id s" using 1 by (auto simp: defer_def split: if_splits)
    with IHe[OF 2] have "frame (\<lambda>h. h < next_id s) s1 s'" by simp
    then show ?thesis
      by (rule frame_trans[OF frame_defer[OF 1, of "\<lambda>h. True"]]) simp
  next
    case (AwaitWithDefer fn k)
    with that obtain r1 s1 where 1: "withDefer n env fn s = Some (r1, s1)"
      and 2: "exec n env (k r1) s1 = Some (r, s')"
      by (auto split: option.splits)
    from frame_next[OF IHw[OF 1]] show ?thesis
      by (intro frame_trans[OF IHw[OF 1] IHe[OF 2]]) auto
  qed
  have w: "frame (\<lambda>h. h < next_id s) s s'" if "withDefer (Suc n) env fn s = Some (r, s')" for fn s r s'
  proof (cases "typeof fn = ''function''")
    case False
    with that show ?thesis by (simp add: frame_refl)
  next
    case True
    define s1 where "s1 = s\<lparr>deferred := (deferred s)(next_id s := []), next_id := Suc (next_id s)\<rparr>"
    from True that obtain r1 s2 es where 1: "exec n env (body env fn [Handle (next_id s)]) s1 = Some (r1, s2)"
      and 2: "drain n env (next_id s) (case r1 of Returned v \<Rightarrow> [] | Thrown e \<Rightarrow> [e]) s2 = Some (es, s')"
      by (auto simp: Let_def s1_def split: option.splits)
    have a: "frame (\<lambda>h. h < next_id s) s s1" unfolding s1_def by (rule frame_alloc)
    have b: "frame (\<lambda>h. h < next_id s) s s2"
      by (rule frame_trans[OF a IHe[OF 1]]) (simp add: s1_def)
    show ?thesis
      using frame_next[OF b] by (intro frame_trans[OF b IHd[OF 2]]) auto
  qed
  have d: "frame (\<lambda>h. h < next_id s \<and> h \<noteq> h0) s s'"
    if "drain (Suc n) env h0 es s = Some (es', s')" for h0 es s es' s'
  proof (cases "length (deferred s h0) > 0")
    case False
    with that show ?thesis by (simp add: frame_refl)
  next
    case True
    define cb where "cb = last (deferred s h0)"
    define s1 where "s1 = s\<lparr>deferred := (deferred s)(h0 := butlast (deferred s h0))\<rparr>"
    from True that obtain r1 s2 where 1: "exec n env (body env cb []) s1 = Some (r1, s2)"
      and 2: "drain n env h0 (case r1 of Returned v \<Rightarrow> es | Thrown e \<Rightarrow> es @ [e])
                 (s2\<lparr>trace := trace s2 @ [Ran h0 cb r1]\<rparr>) = Some (es', s')"
      by (auto simp: Let_def s1_def cb_def split: option.splits)
    have a: "frame (\<lambda>h. h \<noteq> h0) s s1" unfolding s1_def by (rule frame_pop)
    have b: "frame (\<lambda>h. h < next_id s \<and> h \<noteq> h0) s s2"
      by (rule frame_trans[OF a IHe[OF 1]]) (simp add: s1_def)
    have c: "frame (\<lambda>h. h < next_id s \<and> h \<noteq> h0) s (s2\<lparr>trace := trace s2 @ [Ran h0 cb r1]\<rparr>)"
      by (rule frame_trans[OF b frame_ran]) simp
    show ?thesis
      using frame_next[OF c] by (intro frame_trans[OF c IHd[OF 2]]) auto
  qed
  from e w d show ?case by blast
qed

section \<open>The teardown loop\<close>

lemma exec_frame: "exec n env c s = Some (r, s') \<Longrightarrow> frame (\<lambda>h. h < next_id s) s s'"
  using frame_all[of n env] by blast



lemma drain_step:
  assumes "deferred s h \<noteq> []"
    and "exec n env (body env (last (deferred s h)) [])
           (s\<lparr>deferred := (deferred s)(h := butlast (deferred s h))\<rparr>) = Some (r, s2)"
  shows "drain (Suc n) env h es s =
         drain n env h (case r of Returned v \<Rightarrow> es | Thrown e \<Rightarrow> es @ [e])
           (s2\<lparr>trace := trace s2 @ [Ran h (last (deferred s h)) r]\<rparr>)"
  using assms by (simp add: Let_def)

lemma drain_collects:
  "drain n env h es s = Some (es', s') \<Longrightarrow> h < next_id s \<Longrightarrow>
   deferred s' h = [] \<and>
   (\<exists>t. trace s' = trace s @ t \<and> es' = es @ thrown (cleanups h t) \<and>
        set (deferred s h) \<subseteq> fst ` set (cleanups h t))"
proof (induction n arbitrary: es s)
  case 0
  then show ?case by simp
next
  case (Suc n)
  show ?case
  proof (cases "deferred s h = []")
    case True
    with Suc.prems show ?thesis by simp
  next
    case False
    define cb where "cb = last (deferred s h)"
    define s1 where "s1 = s\<lparr>deferred := (deferred s)(h := butlast (deferred s h))\<rparr>"
    from False Suc.prems(1) obtain r1 s2 where 1: "exec n env (body env cb []) s1 = Some (r1, s2)"
      and 2: "drain n env h (case r1 of Returned v \<Rightarrow> es | Thrown e \<Rightarrow> es @ [e])
                 (s2\<lparr>trace := trace s2 @ [Ran h cb r1]\<rparr>) = Some (es', s')"
      by (auto simp: Let_def s1_def cb_def split: option.splits)
    have h1: "h < next_id s1" using Suc.prems(2) by (simp add: s1_def)
    from exec_frame[OF 1] h1 obtain t1 where t1: "trace s2 = trace s @ t1" "cleanups h t1 = []"
      and p: "prefix (butlast (deferred s h)) (deferred s2 h)" and nx: "next_id s1 \<le> next_id s2"
      by (auto simp: frame_def s1_def)
    have h2: "h < next_id (s2\<lparr>trace := trace s2 @ [Ran h cb r1]\<rparr>)" using h1 nx by simp
    from Suc.IH[OF 2 h2] obtain t2 where e: "deferred s' h = []"
      and t2: "trace s' = trace s2 @ [Ran h cb r1] @ t2"
      and es: "es' = (case r1 of Returned v \<Rightarrow> es | Thrown e \<Rightarrow> es @ [e]) @ thrown (cleanups h t2)"
      and sub: "set (deferred s2 h) \<subseteq> fst ` set (cleanups h t2)"
      by auto
    let ?t = "t1 @ [Ran h cb r1] @ t2"
    have a: "trace s' = trace s @ ?t" using t1 t2 by simp
    have r: "cleanups h ?t = (cb, r1) # cleanups h t2" using t1 by simp
    have b: "es' = es @ thrown (cleanups h ?t)" unfolding r using es by (cases r1) simp_all
    have "set (deferred s h) = insert cb (set (butlast (deferred s h)))"
      using False unfolding cb_def by (metis append_butlast_last_id list.set(2) rotate1.simps(2) set_rotate1)
    moreover have "set (butlast (deferred s h)) \<subseteq> set (deferred s2 h)"
      using p by (rule set_mono_prefix)
    ultimately have c: "set (deferred s h) \<subseteq> fst ` set (cleanups h ?t)"
      unfolding r using sub by auto
    from e a b c show ?thesis by blast
  qed
qed



section \<open>The registration handle rejects what is not a function\<close>

text \<open>
  C7.  Called with an argument that is not callable, the registration handle throws the
  \<open>TypeError\<close> "defer() expects a function" and leaves the state, so also the Pending
  Cleanup Sequence, as it was: nothing is registered.  The exception is raised at the
  call site: the caller's code goes on from the call with the exception in hand.
\<close>

theorem defer_rejects_non_function:
  assumes "typeof cb \<noteq> ''function''"
  shows "defer h cb s = (Thrown (TypeError ''defer() expects a function''), s) \<and>
         deferred (snd (defer h cb s)) h = deferred s h \<and>
         exec (Suc n) env (CallDefer h cb k) s =
         exec n env (k (Thrown (TypeError ''defer() expects a function''))) s"
  using assms by (simp add: defer_def)

theorem defer_rejects_non_function_witness:
  "typeof (Str ''cleanup'') \<noteq> ''function'' \<and>
   defer 0 (Str ''cleanup'') init = (Thrown (TypeError ''defer() expects a function''), init) \<and>
   deferred (snd (defer 0 (Str ''cleanup'') init)) 0 = []"
  using defer_rejects_non_function [of "Str ''cleanup''" 0 init]
  by (simp add: init_def)

text \<open>
  C4.  A Promise is not callable, so the first test of the handle already rejects it,
  with the message for any non-function; the test for Promises behind it is not reached.
\<close>

theorem defer_promise_gets_plain_message:
  "defer h Promise s = (Thrown (TypeError ''defer() expects a function''), s)"
  by (simp add: defer_def)

section \<open>The entry point rejects what is not a function\<close>

text \<open>
  C5.  Called with an argument that is not callable, \<open>withDefer\<close> fails with the
  \<open>TypeError\<close> "withDefer() expects a function" itself, not with an \<open>AggregateError\<close>
  around it, and the state is untouched: no \<open>deferred\<close> array was created, nothing was
  called, nothing was logged.
\<close>

theorem withDefer_rejects_non_function:
  assumes "typeof fn \<noteq> ''function''"
  shows "withDefer (Suc n) env fn s =
         Some (Thrown (TypeError ''withDefer() expects a function''), s)"
  using assms by simp

theorem withDefer_rejects_non_function_witness:
  "typeof (Str ''not a function'') \<noteq> ''function'' \<and>
   withDefer (Suc 0) demo (Str ''not a function'') init =
     Some (Thrown (TypeError ''withDefer() expects a function''), init)"
  using withDefer_rejects_non_function [of "Str ''not a function''" 0 demo init]
  by simp

section \<open>How an invocation settles\<close>

lemma withDefer_settles:
  assumes "typeof fn = ''function''"
    and "exec n env (body env fn [Handle (next_id s)]) (started s) = Some (r, s2)"
    and "drain n env (next_id s) (case r of Returned v \<Rightarrow> [] | Thrown e \<Rightarrow> [e]) s2 =
         Some (errors, s3)"
  shows "withDefer (Suc n) env fn s =
         Some (if errors = [] then Returned (case r of Returned v \<Rightarrow> v | Thrown e \<Rightarrow> Null)
               else Thrown (AggregateError errors ''Errors in defer execution''), s3)"
  using assms by (simp add: Let_def started_def)








lemma demo_work_9:
  "exec 4 demo (body demo (Fn 9 []) [Handle (next_id init)]) (started init) =
   Some (Thrown (Num 7),
         \<lparr>deferred = (\<lambda>_. [])(0 := [Fn 0 [Num 1]]), next_id = 1, trace = []\<rparr>)"
  by (simp add: demo_def uncaught_def defer_def started_def init_def eval_nat_numeral)

lemma demo_drain_9:
  "drain 4 demo 0 [Num 7]
     \<lparr>deferred = (\<lambda>_. [])(0 := [Fn 0 [Num 1]]), next_id = 1, trace = []\<rparr> =
   Some ([Num 7],
         \<lparr>deferred = (\<lambda>_. [])(0 := []), next_id = 1,
          trace = [Logged (Num 1), Ran 0 (Fn 0 [Num 1]) (Returned Undefined)]\<rparr>)"
  by (simp add: demo_def eval_nat_numeral)

text \<open>
  C3.  Take any invocation with a callable argument whose work function has settled
  (with \<open>r\<close>) and whose teardown loop has ended, leaving \<open>errors\<close> as the Error
  Collection.  Then the invocation settles; it succeeds exactly when \<open>errors\<close> is empty;
  and whenever \<open>errors\<close> is not empty, be it a single entry, it fails with one
  \<open>AggregateError\<close> that holds the list \<open>errors\<close> as it is.
\<close>

theorem withDefer_succeeds_iff_no_errors:
  assumes "typeof fn = ''function''"
    and "exec n env (body env fn [Handle (next_id s)]) (started s) = Some (r, s2)"
    and "drain n env (next_id s) (case r of Returned v \<Rightarrow> [] | Thrown e \<Rightarrow> [e]) s2 =
         Some (errors, s3)"
  shows "\<exists>out. withDefer (Suc n) env fn s = Some (out, s3) \<and>
           ((\<exists>v. out = Returned v) \<longleftrightarrow> errors = []) \<and>
           (errors \<noteq> [] \<longrightarrow>
              out = Thrown (AggregateError errors ''Errors in defer execution''))"
  using withDefer_settles[OF assms] by auto

theorem withDefer_succeeds_iff_no_errors_witness:
  "withDefer 5 demo (Fn 9 []) init =
     Some (Thrown (AggregateError [Num 7] ''Errors in defer execution''),
           \<lparr>deferred = (\<lambda>_. [])(0 := []), next_id = 1,
            trace = [Logged (Num 1), Ran 0 (Fn 0 [Num 1]) (Returned Undefined)]\<rparr>)"
proof -
  have f: "typeof (Fn 9 []) = ''function''" by simp
  have d: "drain 4 demo (next_id init) (case Thrown (Num 7) of Returned v \<Rightarrow> [] | Thrown e \<Rightarrow> [e])
     \<lparr>deferred = (\<lambda>_. [])(0 := [Fn 0 [Num 1]]), next_id = 1, trace = []\<rparr> =
   Some ([Num 7],
         \<lparr>deferred = (\<lambda>_. [])(0 := []), next_id = 1,
          trace = [Logged (Num 1), Ran 0 (Fn 0 [Num 1]) (Returned Undefined)]\<rparr>)"
    using demo_drain_9 by (simp add: init_def)
  from withDefer_succeeds_iff_no_errors[OF f demo_work_9 d] show ?thesis
    by (auto simp: eval_nat_numeral simp del: withDefer.simps)
qed



section \<open>The teardown loop need not end\<close>










section \<open>Reverse order, and nothing skipped\<close>







section \<open>Following a run\<close>









lemma demo_work_5:
  "exec 3 demo (body demo (Fn 5 []) [Handle 0]) (started init) =
     Some (Returned (Str ''done''), after_work_5)"
  by (simp add: demo_def uncaught_def defer_def init_def started_def after_work_5_def eval_nat_numeral)

lemma demo_cleanup_6:
  "exec 3 demo (body demo (Fn 6 [Handle 0]) [])
     (after_work_5\<lparr>deferred := (deferred after_work_5)(0 := butlast (deferred after_work_5 0))\<rparr>) =
   Some (Returned Undefined, after_late)"
  by (simp add: demo_def uncaught_def defer_def after_work_5_def after_late_def eval_nat_numeral)

lemma demo_drain_5: "drain 4 demo 0 [] after_work_5 = Some ([], after_5)"
  by (simp add: demo_def uncaught_def defer_def after_work_5_def after_5_def eval_nat_numeral)

lemma demo_run_5: "withDefer 5 demo (Fn 5 []) init = Some (Returned (Str ''done''), after_5)"
  by (simp add: demo_def uncaught_def defer_def init_def after_5_def eval_nat_numeral)





section \<open>A rejected registration is a failure of the work function\<close>




section \<open>Appends and removals\<close>

text \<open>
  C8, as the claim states it, fails: program 5 registers one action, which, when the
  teardown loop runs it, calls the handle; the handle appends the new action to the
  sequence that is being drained, and the loop runs it as well.
\<close>

theorem append_during_teardown_counterexample:
  "exec 3 demo (body demo (Fn 5 []) [Handle 0]) (started init) =
     Some (Returned (Str ''done''), after_work_5) \<and>
   deferred after_work_5 0 = [Fn 6 [Handle 0]] \<and>
   exec 3 demo (body demo (Fn 6 [Handle 0]) [])
     (after_work_5\<lparr>deferred := (deferred after_work_5)(0 := butlast (deferred after_work_5 0))\<rparr>) =
     Some (Returned Undefined, after_late) \<and>
   deferred after_late 0 = [Fn 0 [Str ''late'']] \<and>
   withDefer 5 demo (Fn 5 []) init = Some (Returned (Str ''done''), after_5) \<and>
   cleanups 0 (trace after_5) =
     [(Fn 6 [Handle 0], Returned Undefined), (Fn 0 [Str ''late''], Returned Undefined)]"
  using demo_work_5 demo_cleanup_6 demo_run_5
  by (simp add: after_work_5_def after_late_def after_5_def del: withDefer.simps exec.simps)

text \<open>
  C8, amended.  Removals happen in the teardown loop only: whatever caller code runs,
  the Pending Cleanup Sequence of an existing invocation keeps its entries and can only
  grow at its end.  Appends are not confined to the work function: when the teardown
  loop has taken an action off the sequence and run it, the sequence holds at least
  what it held before the action ran, and everything it then holds - also what the
  action appended - is run by the rest of the loop, which ends with the sequence empty.
\<close>

theorem removals_only_in_teardown:
  assumes "h < next_id s"
  shows "(exec n env c s = Some (r, s1) \<longrightarrow> prefix (deferred s h) (deferred s1 h)) \<and>
         (deferred s h \<noteq> [] \<and>
          exec m env (body env (last (deferred s h)) [])
            (s\<lparr>deferred := (deferred s)(h := butlast (deferred s h))\<rparr>) = Some (r', s2) \<and>
          drain (Suc m) env h es s = Some (es', s3) \<longrightarrow>
            prefix (butlast (deferred s h)) (deferred s2 h) \<and>
            deferred s3 h = [] \<and>
            (\<exists>t. trace s3 = trace s2 @ Ran h (last (deferred s h)) r' # t \<and>
                 set (deferred s2 h) \<subseteq> fst ` set (cleanups h t)))"
proof (intro conjI impI)
  assume "exec n env c s = Some (r, s1)"
  from exec_frame[OF this] assms show "prefix (deferred s h) (deferred s1 h)"
    by (simp add: frame_def)
next
  assume a: "deferred s h \<noteq> [] \<and>
          exec m env (body env (last (deferred s h)) [])
            (s\<lparr>deferred := (deferred s)(h := butlast (deferred s h))\<rparr>) = Some (r', s2) \<and>
          drain (Suc m) env h es s = Some (es', s3)"
  then have ne: "deferred s h \<noteq> []"
    and x: "exec m env (body env (last (deferred s h)) [])
            (s\<lparr>deferred := (deferred s)(h := butlast (deferred s h))\<rparr>) = Some (r', s2)"
    and d: "drain (Suc m) env h es s = Some (es', s3)"
    by blast+
  note f = exec_frame[OF x]
  from f assms show "prefix (butlast (deferred s h)) (deferred s2 h)"
    by (auto simp: frame_def)
  have lt: "h < next_id (s2\<lparr>trace := trace s2 @ [Ran h (last (deferred s h)) r']\<rparr>)"
    using frame_next[OF f] assms by simp
  have d': "drain m env h (case r' of Returned v \<Rightarrow> es | Thrown e \<Rightarrow> es @ [e])
           (s2\<lparr>trace := trace s2 @ [Ran h (last (deferred s h)) r']\<rparr>) = Some (es', s3)"
    using d unfolding drain_step[OF ne x, of es] .
  from drain_collects[OF d' lt] show "deferred s3 h = []" by simp
  from drain_collects[OF d' lt]
  show "\<exists>t. trace s3 = trace s2 @ Ran h (last (deferred s h)) r' # t \<and>
                 set (deferred s2 h) \<subseteq> fst ` set (cleanups h t)"
    by auto
qed

theorem removals_only_in_teardown_witness:
  "prefix (deferred after_work_5 0) (deferred after_work_5 0) \<and>
   prefix (butlast (deferred after_work_5 0)) (deferred after_late 0) \<and>
   deferred after_5 0 = [] \<and>
   (\<exists>t. trace after_5 =
          trace after_late @ Ran 0 (last (deferred after_work_5 0)) (Returned Undefined) # t \<and>
        set (deferred after_late 0) \<subseteq> fst ` set (cleanups 0 t))"
proof -
  have lt: "(0::nat) < next_id after_work_5" by (simp add: after_work_5_def)
  have ne: "deferred after_work_5 0 \<noteq> []" by (simp add: after_work_5_def)
  have c: "exec 3 demo (body demo (last (deferred after_work_5 0)) [])
     (after_work_5\<lparr>deferred := (deferred after_work_5)(0 := butlast (deferred after_work_5 0))\<rparr>) =
     Some (Returned Undefined, after_late)"
    using demo_cleanup_6 by (simp add: after_work_5_def del: exec.simps)
  have d: "drain (Suc 3) demo 0 [] after_work_5 = Some ([], after_5)"
    using demo_drain_5 by (simp add: eval_nat_numeral del: drain.simps)
  have e: "exec (Suc 0) demo (Ret Undefined) after_work_5 = Some (Returned Undefined, after_work_5)"
    by simp
  from removals_only_in_teardown[OF lt, of "Suc 0" demo "Ret Undefined" "Returned Undefined"
      after_work_5 3 "Returned Undefined" after_late "[]" "[]" after_5]
    e ne c d
  show ?thesis by blast
qed

section \<open>Nested invocations\<close>



end
